theory Spec2Isabelle
  imports Complex_Main
begin

section \<open>The RPN calculator of \<^verbatim>\<open>rpn_calculator.py\<close>\<close>

text \<open>
  The class \<^verbatim>\<open>RPNCalculator\<close> turns an infix expression into reverse Polish notation
  with the shunting-yard algorithm and evaluates the result on an operand stack.

  Strings are \<^typ>\<open>string\<close>, lists of 8-bit characters: the model covers the Python
  strings whose code points are below 256, where the regular expression class
  \<^verbatim>\<open>\d\<close> is exactly \<^verbatim>\<open>0\<close> to \<^verbatim>\<open>9\<close>.
  A Python list used as a stack (\<^verbatim>\<open>append\<close>, \<^verbatim>\<open>pop\<close>, \<^verbatim>\<open>[-1]\<close>)
  is a HOL list whose head is the top of the stack; the output list is a HOL list in
  the order of the Python list.

  Every \<^verbatim>\<open>raise\<close> of the source is a value \<open>Inl e\<close>. The program raises
  \<^verbatim>\<open>ValueError\<close> with six messages (in Russian), the first six constructors of
  \<open>error\<close>, named after the error kinds of the specification; an
  exception raised by a Python builtin (a dictionary lookup, an arithmetic operator)
  is \<open>Builtin\<close>.
\<close>

subsection \<open>Errors\<close>

datatype py_exc = ZeroDivisionError | OverflowError | KeyError string

datatype error =
    EmptyExpression          \<comment> \<open>the \<^verbatim>\<open>ValueError\<close> of line 163 ("empty expression")\<close>
  | UnbalancedParentheses    \<comment> \<open>the \<^verbatim>\<open>ValueError\<close> of lines 84 and 88 ("unbalanced parentheses")\<close>
  | InsufficientOperands     \<comment> \<open>the \<^verbatim>\<open>ValueError\<close> of line 131 ("not enough operands for the operator")\<close>
  | DivisionByZero           \<comment> \<open>the \<^verbatim>\<open>ValueError\<close> of line 137 ("division by zero")\<close>
  | UnknownToken string      \<comment> \<open>the \<^verbatim>\<open>ValueError\<close> of line 142 ("unknown token", with the token)\<close>
  | MalformedExpression      \<comment> \<open>the \<^verbatim>\<open>ValueError\<close> of line 145 ("incorrect expression")\<close>
  | Builtin py_exc

subsection \<open>Floating-point primitives, as parameters\<close>

text \<open>
  The program computes with Python's \<^verbatim>\<open>float\<close> through \<^verbatim>\<open>float(token)\<close>,
  the comparison \<^verbatim>\<open>op2 == 0\<close> and the five functions \<^verbatim>\<open>operator.add\<close>,
  \<^verbatim>\<open>sub\<close>, \<^verbatim>\<open>mul\<close>, \<^verbatim>\<open>truediv\<close> and \<^verbatim>\<open>pow\<close>. None of them is code of
  the program, and IEEE arithmetic is not modelled: the primitives are the fields of a
  record \<open>A\<close> over a type \<open>'v\<close> of values, which every function below takes as its
  first argument instead of \<^verbatim>\<open>self\<close>. A primitive may raise (\<^verbatim>\<open>pow\<close> raises
  \<^verbatim>\<open>ZeroDivisionError\<close> and \<^verbatim>\<open>OverflowError\<close>), so it returns \<open>py_exc + 'v\<close>.
  \<open>float_of\<close> is the value of \<^verbatim>\<open>float(token)\<close> for a token that \<^verbatim>\<open>float\<close>
  accepts; whether it accepts is \<open>float_syntax\<close> below.
\<close>

record 'v arith =
  float_of :: "string \<Rightarrow> 'v"
  eq_zero :: "'v \<Rightarrow> bool"
  add :: "'v \<Rightarrow> 'v \<Rightarrow> py_exc + 'v"
  sub :: "'v \<Rightarrow> 'v \<Rightarrow> py_exc + 'v"
  mul :: "'v \<Rightarrow> 'v \<Rightarrow> py_exc + 'v"
  truediv :: "'v \<Rightarrow> 'v \<Rightarrow> py_exc + 'v"
  pow :: "'v \<Rightarrow> 'v \<Rightarrow> py_exc + 'v"

subsection \<open>The operator table (\<^verbatim>\<open>__init__\<close>, lines 12-19)\<close>

record 'v op_info =
  precedence :: int
  associativity :: string
  func :: "'v \<Rightarrow> 'v \<Rightarrow> py_exc + 'v"

definition operators :: "'v arith \<Rightarrow> string \<rightharpoonup> 'v op_info" where
  "operators A =
     [''+'' \<mapsto> \<lparr>precedence = 1, associativity = ''left'', func = add A\<rparr>,
      ''-'' \<mapsto> \<lparr>precedence = 1, associativity = ''left'', func = sub A\<rparr>,
      ''*'' \<mapsto> \<lparr>precedence = 2, associativity = ''left'', func = mul A\<rparr>,
      ''/'' \<mapsto> \<lparr>precedence = 2, associativity = ''left'', func = truediv A\<rparr>,
      ''^'' \<mapsto> \<lparr>precedence = 3, associativity = ''right'', func = pow A\<rparr>]"

subsection \<open>\<^verbatim>\<open>tokenize\<close> (lines 21-34)\<close>

definition is_digit :: "char \<Rightarrow> bool" where
  "is_digit c = (c \<in> set ''0123456789'')"

text \<open>
  \<^verbatim>\<open>re.findall(r'\d+\.?\d*|[()+\-*/^]', expression)\<close> scans from the left. At a digit
  the first alternative matches: the longest run of digits, then a point if one follows,
  then the longest run of digits (every quantifier is greedy and everything after
  \<^verbatim>\<open>\d+\<close> is optional, so nothing is given back). At one of the seven symbols the
  second alternative matches that character. At any other character there is no match
  and the scan moves one character on.
\<close>

function tokenize :: "string \<Rightarrow> string list" where
  "tokenize [] = []"
| "tokenize (c # cs) =
     (if is_digit c then
        (case dropWhile is_digit cs of
           d # rest \<Rightarrow>
             if d = CHR ''.'' then
               (c # takeWhile is_digit cs @ [d] @ takeWhile is_digit rest)
                 # tokenize (dropWhile is_digit rest)
             else (c # takeWhile is_digit cs) # tokenize (d # rest)
         | [] \<Rightarrow> [c # takeWhile is_digit cs])
      else if c \<in> set ''()+-*/^'' then [c] # tokenize cs
      else tokenize cs)"
  by pat_completeness auto
termination
proof (relation "measure length")
  fix c :: char and cs x21 x22
  assume "dropWhile is_digit cs = x21 # x22"
  then have l: "length (x21 # x22) \<le> length cs"
    by (metis length_dropWhile_le)
  have "length (dropWhile is_digit x22) \<le> length x22"
    by (rule length_dropWhile_le)
  with l show "(dropWhile is_digit x22, c # cs) \<in> measure length" by simp
  from l show "(x21 # x22, c # cs) \<in> measure length" by simp
qed simp_all

subsection \<open>\<^verbatim>\<open>is_number\<close> (lines 36-50)\<close>

text \<open>
  \<^verbatim>\<open>is_number\<close> is true when \<^verbatim>\<open>float(token)\<close> returns and false when it raises
  \<^verbatim>\<open>ValueError\<close>. What \<^verbatim>\<open>float\<close> accepts is fixed by the Python language reference
  (\<^emph>\<open>Built-in Functions\<close>, \<^verbatim>\<open>float\<close>): leading and trailing whitespace is removed
  (tab, line feed, vertical tab, form feed, carriage return and space, and the two
  spaces U+0085 and U+00A0 above the ASCII range); a sign may follow; then come \<^verbatim>\<open>inf\<close>, \<^verbatim>\<open>infinity\<close> or \<^verbatim>\<open>nan\<close> in any case, or
  a number (digits with an optional point, or a point and digits) with an optional
  exponent. A single underscore may stand between two digits. A numeral too large for
  a double is accepted too (its value is infinite).
\<close>

definition float_space :: "char \<Rightarrow> bool" where
  "float_space c = (c \<in> {CHR 0x09, CHR 0x0A, CHR 0x0B, CHR 0x0C, CHR 0x0D, CHR 0x20, CHR 0x85, CHR 0xA0})"

definition float_strip :: "string \<Rightarrow> string" where
  "float_strip s = rev (dropWhile float_space (rev (dropWhile float_space s)))"

fun underscores_ok :: "char \<Rightarrow> string \<Rightarrow> bool" where
  "underscores_ok prev [] = (prev \<noteq> CHR ''_'')"
| "underscores_ok prev (c # cs) =
     ((if c = CHR ''_'' then is_digit prev else if prev = CHR ''_'' then is_digit c else True)
      \<and> underscores_ok c cs)"

definition drop_sign :: "string \<Rightarrow> string" where
  "drop_sign s = (case s of c # cs \<Rightarrow> if c = CHR ''+'' \<or> c = CHR ''-'' then cs else s | [] \<Rightarrow> s)"

definition to_lower :: "char \<Rightarrow> char" where
  "to_lower c =
     (case map_of (zip ''ABCDEFGHIJKLMNOPQRSTUVWXYZ'' ''abcdefghijklmnopqrstuvwxyz'') c of
        Some l \<Rightarrow> l | None \<Rightarrow> c)"

definition exponent_ok :: "string \<Rightarrow> bool" where
  "exponent_ok s =
     (case s of
        [] \<Rightarrow> True
      | c # cs \<Rightarrow> (c = CHR ''e'' \<or> c = CHR ''E'') \<and> drop_sign cs \<noteq> [] \<and> list_all is_digit (drop_sign cs))"

definition float_number :: "string \<Rightarrow> bool" where
  "float_number s =
     (let ip = takeWhile is_digit s; r = dropWhile is_digit s in
      case r of
        d # r' \<Rightarrow>
          if d = CHR ''.'' then
            (ip \<noteq> [] \<or> takeWhile is_digit r' \<noteq> []) \<and> exponent_ok (dropWhile is_digit r')
          else ip \<noteq> [] \<and> exponent_ok r
      | [] \<Rightarrow> ip \<noteq> [])"

definition float_syntax :: "string \<Rightarrow> bool" where
  "float_syntax token =
     (let s = float_strip token in
      underscores_ok (CHR 0x00) s \<and>
      (let b = drop_sign (filter (\<lambda>c. c \<noteq> CHR ''_'') s) in
       map to_lower b \<in> {''inf'', ''infinity'', ''nan''} \<or> float_number b))"

definition is_number :: "string \<Rightarrow> bool" where
  "is_number token = float_syntax token"

subsection \<open>\<^verbatim>\<open>_should_pop_operator\<close> (lines 93-112)\<close>

text \<open>
  \<^verbatim>\<open>self.operators[current_op]\<close> raises \<^verbatim>\<open>KeyError\<close> when \<^verbatim>\<open>current_op\<close> is not a
  key; it is evaluated after the test of \<^verbatim>\<open>stack_top\<close>.
\<close>

definition should_pop_operator :: "'v arith \<Rightarrow> string \<Rightarrow> string \<Rightarrow> error + bool" where
  "should_pop_operator A current_op stack_top =
     (case operators A stack_top of
        None \<Rightarrow> Inr False
      | Some s \<Rightarrow>
          (case operators A current_op of
             None \<Rightarrow> Inl (Builtin (KeyError current_op))
           | Some c \<Rightarrow>
               Inr (precedence s > precedence c \<or>
                    (precedence s = precedence c \<and> associativity c = ''left''))))"

subsection \<open>\<^verbatim>\<open>shunting_yard\<close> (lines 52-91)\<close>

text \<open>The loop of lines 71-74, run when \<^verbatim>\<open>token\<close> is an operator.\<close>

fun pop_operators :: "'v arith \<Rightarrow> string \<Rightarrow> string list \<Rightarrow> string list
    \<Rightarrow> error + (string list \<times> string list)" where
  "pop_operators A token output [] = Inr (output, [])"
| "pop_operators A token output (stack_top # operator_stack) =
     (if stack_top \<noteq> ''('' then
        (case should_pop_operator A token stack_top of
           Inl e \<Rightarrow> Inl e
         | Inr b \<Rightarrow>
             if b then pop_operators A token (output @ [stack_top]) operator_stack
             else Inr (output, stack_top # operator_stack))
      else Inr (output, stack_top # operator_stack))"

text \<open>Lines 79-84, run when \<^verbatim>\<open>token\<close> is a closing parenthesis.\<close>

fun close_paren :: "string list \<Rightarrow> string list \<Rightarrow> error + (string list \<times> string list)" where
  "close_paren output [] = Inl UnbalancedParentheses"
| "close_paren output (stack_top # operator_stack) =
     (if stack_top \<noteq> ''('' then close_paren (output @ [stack_top]) operator_stack
      else Inr (output, operator_stack))"

text \<open>
  Lines 86-89. \<^verbatim>\<open>operator_stack[-1] in '()'\<close> is a substring test: it holds for the
  four substrings of \<^verbatim>\<open>'()'\<close>.
\<close>

fun drain :: "string list \<Rightarrow> string list \<Rightarrow> error + string list" where
  "drain output [] = Inr output"
| "drain output (stack_top # operator_stack) =
     (if stack_top \<in> {'''', ''('', '')'', ''()''} then Inl UnbalancedParentheses
      else drain (output @ [stack_top]) operator_stack)"

text \<open>One turn of the loop of line 67, on the pair of the output and the operator stack.\<close>

definition sy_token :: "'v arith \<Rightarrow> string \<Rightarrow> string list \<times> string list
    \<Rightarrow> error + (string list \<times> string list)" where
  "sy_token A token st =
     (case st of (output, operator_stack) \<Rightarrow>
        if is_number token then Inr (output @ [token], operator_stack)
        else if token \<in> dom (operators A) then
          (case pop_operators A token output operator_stack of
             Inl e \<Rightarrow> Inl e
           | Inr (output', operator_stack') \<Rightarrow> Inr (output', token # operator_stack'))
        else if token = ''('' then Inr (output, token # operator_stack)
        else if token = '')'' then close_paren output operator_stack
        else Inr (output, operator_stack))"

fun sy_loop :: "'v arith \<Rightarrow> string list \<Rightarrow> string list \<times> string list
    \<Rightarrow> error + (string list \<times> string list)" where
  "sy_loop A [] st = Inr st"
| "sy_loop A (token # tokens) st =
     (case sy_token A token st of Inl e \<Rightarrow> Inl e | Inr st' \<Rightarrow> sy_loop A tokens st')"

definition shunting_yard :: "'v arith \<Rightarrow> string \<Rightarrow> error + string list" where
  "shunting_yard A expression =
     (case sy_loop A (tokenize expression) ([], []) of
        Inl e \<Rightarrow> Inl e
      | Inr (output, operator_stack) \<Rightarrow> drain output operator_stack)"

subsection \<open>\<^verbatim>\<open>evaluate_rpn\<close> (lines 114-147)\<close>

text \<open>One turn of the loop of line 126, on the operand stack.\<close>

definition rpn_token :: "'v arith \<Rightarrow> string \<Rightarrow> 'v list \<Rightarrow> error + 'v list" where
  "rpn_token A token stack =
     (if is_number token then Inr (float_of A token # stack)
      else
        (case operators A token of
           Some info \<Rightarrow>
             if length stack < 2 then Inl InsufficientOperands
             else
               (let op2 = hd stack; op1 = hd (tl stack) in
                if token = ''/'' \<and> eq_zero A op2 then Inl DivisionByZero
                else
                  (case func info op1 op2 of
                     Inl x \<Rightarrow> Inl (Builtin x)
                   | Inr result \<Rightarrow> Inr (result # tl (tl stack))))
         | None \<Rightarrow> Inl (UnknownToken token)))"

fun rpn_loop :: "'v arith \<Rightarrow> string list \<Rightarrow> 'v list \<Rightarrow> error + 'v list" where
  "rpn_loop A [] stack = Inr stack"
| "rpn_loop A (token # tokens) stack =
     (case rpn_token A token stack of Inl e \<Rightarrow> Inl e | Inr stack' \<Rightarrow> rpn_loop A tokens stack')"

definition evaluate_rpn :: "'v arith \<Rightarrow> string list \<Rightarrow> error + 'v" where
  "evaluate_rpn A rpn_expression =
     (case rpn_loop A rpn_expression [] of
        Inl e \<Rightarrow> Inl e
      | Inr stack \<Rightarrow> if length stack \<noteq> 1 then Inl MalformedExpression else Inr (hd stack))"

subsection \<open>\<^verbatim>\<open>calculate\<close> (lines 149-166)\<close>

definition calculate :: "'v arith \<Rightarrow> string \<Rightarrow> error + 'v" where
  "calculate A expression =
     (let expression' = filter (\<lambda>c. c \<noteq> CHR '' '') expression in
      if expression' = [] then Inl EmptyExpression
      else
        (case shunting_yard A expression' of
           Inl e \<Rightarrow> Inl e
         | Inr rpn \<Rightarrow> evaluate_rpn A rpn))"

subsection \<open>An instance of the primitives: exact arithmetic\<close>

text \<open>
  To run the model on concrete inputs the primitives are instantiated with exact
  rational arithmetic. A value is \<open>Exact q\<close>, or \<open>Untracked\<close> for a double that the
  instance does not follow (an infinity, a NaN, a power with a fractional exponent).
  \<^verbatim>\<open>truediv\<close> and \<^verbatim>\<open>pow\<close> raise \<^verbatim>\<open>ZeroDivisionError\<close> where Python does. Python's
  doubles agree with the instance as long as every operand and result is a double (a
  dyadic rational of at most 53 significant bits), as in the examples of the
  specification.
\<close>

datatype dval = Exact rat | Untracked

definition digit_val :: "char \<Rightarrow> nat" where
  "digit_val c = (case map_of (zip ''0123456789'' [0, 1, 2, 3, 4, 5, 6, 7, 8, 9]) c of
     Some n \<Rightarrow> n | None \<Rightarrow> 0)"

definition nat_of_digits :: "string \<Rightarrow> nat" where
  "nat_of_digits ds = foldl (\<lambda>n c. 10 * n + digit_val c) 0 ds"

definition exact_float_of :: "string \<Rightarrow> dval" where
  "exact_float_of token =
     (let s = filter (\<lambda>c. c \<noteq> CHR ''_'') (float_strip token);
          b = drop_sign s;
          ip = takeWhile is_digit b;
          r = dropWhile is_digit b;
          fp = (case r of d # r' \<Rightarrow> if d = CHR ''.'' then takeWhile is_digit r' else [] | [] \<Rightarrow> []);
          ex = (case r of d # r' \<Rightarrow> if d = CHR ''.'' then dropWhile is_digit r' else r | [] \<Rightarrow> []);
          m = (of_nat (nat_of_digits (ip @ fp)) :: rat) / 10 ^ length fp;
          v = (case ex of
                 [] \<Rightarrow> m
               | e # es \<Rightarrow>
                   if take 1 es = ''-'' then m / 10 ^ nat_of_digits (drop_sign es)
                   else m * 10 ^ nat_of_digits (drop_sign es))
      in if float_number b then Exact (if take 1 s = ''-'' then - v else v) else Untracked)"

fun exact_add :: "dval \<Rightarrow> dval \<Rightarrow> py_exc + dval" where
  "exact_add (Exact a) (Exact b) = Inr (Exact (a + b))"
| "exact_add _ _ = Inr Untracked"

fun exact_sub :: "dval \<Rightarrow> dval \<Rightarrow> py_exc + dval" where
  "exact_sub (Exact a) (Exact b) = Inr (Exact (a - b))"
| "exact_sub _ _ = Inr Untracked"

fun exact_mul :: "dval \<Rightarrow> dval \<Rightarrow> py_exc + dval" where
  "exact_mul (Exact a) (Exact b) = Inr (Exact (a * b))"
| "exact_mul _ _ = Inr Untracked"

fun exact_truediv :: "dval \<Rightarrow> dval \<Rightarrow> py_exc + dval" where
  "exact_truediv (Exact a) (Exact b) = (if b = 0 then Inl ZeroDivisionError else Inr (Exact (a / b)))"
| "exact_truediv Untracked (Exact b) = (if b = 0 then Inl ZeroDivisionError else Inr Untracked)"
| "exact_truediv _ Untracked = Inr Untracked"

fun exact_pow :: "dval \<Rightarrow> dval \<Rightarrow> py_exc + dval" where
  "exact_pow (Exact a) (Exact b) =
     (if b = of_int \<lfloor>b\<rfloor> then
        (if 0 \<le> b then Inr (Exact (a ^ nat \<lfloor>b\<rfloor>))
         else if a = 0 then Inl ZeroDivisionError
         else Inr (Exact (1 / a ^ nat (- \<lfloor>b\<rfloor>))))
      else if a = 0 then (if 0 < b then Inr (Exact 0) else Inl ZeroDivisionError)
      else Inr Untracked)"
| "exact_pow _ _ = Inr Untracked"

fun exact_eq_zero :: "dval \<Rightarrow> bool" where
  "exact_eq_zero (Exact a) = (a = 0)"
| "exact_eq_zero Untracked = False"

definition exact_arith :: "dval arith" where
  "exact_arith =
     \<lparr>float_of = exact_float_of, eq_zero = exact_eq_zero, add = exact_add, sub = exact_sub,
      mul = exact_mul, truediv = exact_truediv, pow = exact_pow\<rparr>"

subsection \<open>Notions of the specification\<close>

text \<open>
  The number pattern of the tokenizer and of section 4.2 of the specification: one or
  more digits, optionally followed by a decimal point and more digits.
\<close>

definition number_pattern :: "string \<Rightarrow> bool" where
  "number_pattern s =
     (takeWhile is_digit s \<noteq> [] \<and>
      (case dropWhile is_digit s of
         [] \<Rightarrow> True
       | d # r \<Rightarrow> d = CHR ''.'' \<and> list_all is_digit r))"

text \<open>
  The whitespace characters of Python (\<^verbatim>\<open>str.isspace\<close>) below code point 256, and
  the string with all of them removed, which is what section 4.5 of the specification
  describes.
\<close>

definition py_isspace :: "char \<Rightarrow> bool" where
  "py_isspace c =
     (c \<in> {CHR 0x09, CHR 0x0A, CHR 0x0B, CHR 0x0C, CHR 0x0D, CHR 0x1C, CHR 0x1D, CHR 0x1E,
            CHR 0x1F, CHR 0x20, CHR 0x85, CHR 0xA0})"

definition strip_whitespace :: "string \<Rightarrow> string" where
  "strip_whitespace s = filter (\<lambda>c. \<not> py_isspace c) s"










section \<open>Properties\<close>

subsection \<open>The operator table and the symbols\<close>

lemma operators_None_iff:
  "operators A t = None \<longleftrightarrow> t \<notin> {''+'', ''-'', ''*'', ''/'', ''^''}"
  by (simp add: operators_def)

lemma operators_dom: "dom (operators A) = {''+'', ''-'', ''*'', ''/'', ''^''}"
  by (auto simp: operators_def split: if_splits)

lemma operators_Some_iff:
  "(\<exists>i. operators A t = Some i) \<longleftrightarrow> t \<in> {''+'', ''-'', ''*'', ''/'', ''^''}"
  using operators_None_iff [of A t] by (cases "operators A t") simp_all

lemma operators_simps:
  "operators A ''+'' = Some \<lparr>precedence = 1, associativity = ''left'', func = add A\<rparr>"
  "operators A ''-'' = Some \<lparr>precedence = 1, associativity = ''left'', func = sub A\<rparr>"
  "operators A ''*'' = Some \<lparr>precedence = 2, associativity = ''left'', func = mul A\<rparr>"
  "operators A ''/'' = Some \<lparr>precedence = 2, associativity = ''left'', func = truediv A\<rparr>"
  "operators A ''^'' = Some \<lparr>precedence = 3, associativity = ''right'', func = pow A\<rparr>"
  by (simp_all add: operators_def)

lemma is_number_symbols:
  "\<not> is_number ''+''" "\<not> is_number ''-''" "\<not> is_number ''*''" "\<not> is_number ''/''"
  "\<not> is_number ''^''" "\<not> is_number ''(''" "\<not> is_number '')''"
  by (simp_all add: is_number_def float_syntax_def float_strip_def float_space_def
      drop_sign_def float_number_def is_digit_def to_lower_def)

subsection \<open>The evaluator\<close>

lemma rpn_token_error:
  "rpn_token A t st = Inl e \<Longrightarrow>
     e = InsufficientOperands \<or> e = DivisionByZero \<or> e = UnknownToken t \<or> (\<exists>x. e = Builtin x)"
  by (auto simp: rpn_token_def Let_def split: if_splits option.splits sum.splits)

lemma rpn_loop_error:
  "rpn_loop A ts st = Inl e \<Longrightarrow>
     e = InsufficientOperands \<or> e = DivisionByZero \<or> (\<exists>t. e = UnknownToken t) \<or> (\<exists>x. e = Builtin x)"
proof (induction ts arbitrary: st)
  case Nil
  then show ?case by simp
next
  case (Cons t ts)
  show ?case
  proof (cases "rpn_token A t st")
    case (Inl e')
    with Cons.prems have "e' = e" by simp
    with Inl rpn_token_error [of A t st e] show ?thesis by auto
  next
    case (Inr st')
    with Cons.prems have "rpn_loop A ts st' = Inl e" by simp
    then show ?thesis by (rule Cons.IH)
  qed
qed

text \<open>
  Claim C8. \<^verbatim>\<open>evaluate_rpn\<close> returns a value \<open>v\<close> exactly when the loop over the
  tokens ends with the operand stack holding the single value \<open>v\<close>, and it fails with
  \<open>MalformedExpression\<close> exactly when the loop ends with no value or with more than one
  value on the stack.
\<close>

theorem evaluate_rpn_single_value:
  "(evaluate_rpn A rpn_expression = Inr v \<longleftrightarrow> rpn_loop A rpn_expression [] = Inr [v]) \<and>
   (evaluate_rpn A rpn_expression = Inl MalformedExpression \<longleftrightarrow>
      (\<exists>stack. rpn_loop A rpn_expression [] = Inr stack \<and> length stack \<noteq> 1))"
proof (cases "rpn_loop A rpn_expression []")
  case (Inl e)
  with rpn_loop_error [of A rpn_expression "[]" e] have "e \<noteq> MalformedExpression" by auto
  with Inl show ?thesis by (simp add: evaluate_rpn_def)
next
  case (Inr stack)
  show ?thesis
  proof (cases stack)
    case Nil
    with Inr show ?thesis by (simp add: evaluate_rpn_def)
  next
    case (Cons x xs)
    with Inr show ?thesis by (cases xs) (auto simp: evaluate_rpn_def)
  qed
qed

theorem evaluate_rpn_single_value_witness:
  "evaluate_rpn exact_arith [''2'', ''3'', ''+''] = Inr (Exact 5) \<and>
   evaluate_rpn exact_arith [''2'', ''3''] = Inl MalformedExpression \<and>
   evaluate_rpn exact_arith [] = Inl MalformedExpression"
proof -
  have a: "rpn_loop exact_arith [''2'', ''3'', ''+''] [] = Inr [Exact 5]" by code_simp
  have b: "rpn_loop exact_arith [''2'', ''3''] [] = Inr [Exact 3, Exact 2]" by code_simp
  have c: "rpn_loop exact_arith [] [] = Inr ([] :: dval list)" by simp
  from a have 1: "evaluate_rpn exact_arith [''2'', ''3'', ''+''] = Inr (Exact 5)"
    using evaluate_rpn_single_value [of exact_arith "[''2'', ''3'', ''+'']" "Exact 5"] by blast
  from b have 2: "evaluate_rpn exact_arith [''2'', ''3''] = Inl MalformedExpression"
    using evaluate_rpn_single_value [of exact_arith "[''2'', ''3'']"] by auto
  from c have 3: "evaluate_rpn exact_arith [] = Inl MalformedExpression"
    using evaluate_rpn_single_value [of exact_arith "[]"] by auto
  from 1 2 3 show ?thesis by blast
qed

lemma rpn_loop_append:
  "rpn_loop A (xs @ ys) st =
     (case rpn_loop A xs st of Inl e \<Rightarrow> Inl e | Inr st' \<Rightarrow> rpn_loop A ys st')"
  by (induction xs arbitrary: st) (auto split: sum.splits)

lemma rpn_loop_Inl_iff:
  "rpn_loop A ts st = Inl e \<longleftrightarrow>
     (\<exists>pre t post st'. ts = pre @ t # post \<and> rpn_loop A pre st = Inr st' \<and> rpn_token A t st' = Inl e)"
proof (induction ts arbitrary: st)
  case Nil
  then show ?case by simp
next
  case (Cons a ts)
  show ?case
  proof (cases "rpn_token A a st")
    case (Inl e')
    show ?thesis
    proof
      assume "rpn_loop A (a # ts) st = Inl e"
      with Inl have "e' = e" by simp
      with Inl have "a # ts = [] @ a # ts \<and> rpn_loop A [] st = Inr st \<and> rpn_token A a st = Inl e"
        by simp
      then show "\<exists>pre t post st'. a # ts = pre @ t # post \<and> rpn_loop A pre st = Inr st' \<and>
          rpn_token A t st' = Inl e"
        by blast
    next
      assume "\<exists>pre t post st'. a # ts = pre @ t # post \<and> rpn_loop A pre st = Inr st' \<and>
          rpn_token A t st' = Inl e"
      then obtain pre t post st' where h: "a # ts = pre @ t # post"
        "rpn_loop A pre st = Inr st'" "rpn_token A t st' = Inl e" by blast
      show "rpn_loop A (a # ts) st = Inl e"
      proof (cases pre)
        case Nil
        with h Inl show ?thesis by simp
      next
        case (Cons p ps)
        with h Inl show ?thesis by simp
      qed
    qed
  next
    case (Inr st1)
    have "rpn_loop A (a # ts) st = Inl e \<longleftrightarrow> rpn_loop A ts st1 = Inl e"
      using Inr by simp
    also have "\<dots> \<longleftrightarrow> (\<exists>pre t post st'. ts = pre @ t # post \<and> rpn_loop A pre st1 = Inr st' \<and>
        rpn_token A t st' = Inl e)"
      by (rule Cons.IH)
    also have "\<dots> \<longleftrightarrow> (\<exists>pre t post st'. a # ts = pre @ t # post \<and> rpn_loop A pre st = Inr st' \<and>
        rpn_token A t st' = Inl e)"
    proof
      assume "\<exists>pre t post st'. ts = pre @ t # post \<and> rpn_loop A pre st1 = Inr st' \<and>
        rpn_token A t st' = Inl e"
      then obtain pre t post st' where h: "ts = pre @ t # post"
        "rpn_loop A pre st1 = Inr st'" "rpn_token A t st' = Inl e" by blast
      then have "a # ts = (a # pre) @ t # post \<and> rpn_loop A (a # pre) st = Inr st' \<and>
          rpn_token A t st' = Inl e"
        using Inr by simp
      then show "\<exists>pre t post st'. a # ts = pre @ t # post \<and> rpn_loop A pre st = Inr st' \<and>
          rpn_token A t st' = Inl e"
        by blast
    next
      assume "\<exists>pre t post st'. a # ts = pre @ t # post \<and> rpn_loop A pre st = Inr st' \<and>
        rpn_token A t st' = Inl e"
      then obtain pre t post st' where h: "a # ts = pre @ t # post"
        "rpn_loop A pre st = Inr st'" "rpn_token A t st' = Inl e" by blast
      show "\<exists>pre t post st'. ts = pre @ t # post \<and> rpn_loop A pre st1 = Inr st' \<and>
        rpn_token A t st' = Inl e"
      proof (cases pre)
        case Nil
        with h Inr show ?thesis by simp
      next
        case (Cons p ps)
        with h Inr have "ts = ps @ t # post \<and> rpn_loop A ps st1 = Inr st' \<and>
            rpn_token A t st' = Inl e" by simp
        then show ?thesis by blast
      qed
    qed
    finally show ?thesis .
  qed
qed

lemma rpn_token_operator:
  assumes "operators A token = Some info"
  shows "rpn_token A token stack =
     (case stack of
        b # a # rest \<Rightarrow>
          if token = ''/'' \<and> eq_zero A b then Inl DivisionByZero
          else (case func info a b of Inl x \<Rightarrow> Inl (Builtin x) | Inr r \<Rightarrow> Inr (r # rest))
      | _ \<Rightarrow> Inl InsufficientOperands)"
proof -
  from assms have "token \<in> {''+'', ''-'', ''*'', ''/'', ''^''}"
    using operators_Some_iff [of A token] by blast
  then have "\<not> is_number token"
    using is_number_symbols by auto
  with assms show ?thesis
    by (auto simp: rpn_token_def Let_def split: list.splits sum.splits)
qed

lemma rpn_token_DivisionByZero:
  "rpn_token A token stack = Inl DivisionByZero \<longleftrightarrow>
     token = ''/'' \<and> (\<exists>b a rest. stack = b # a # rest \<and> eq_zero A b)"
proof (cases "operators A token")
  case None
  then have "token \<noteq> ''/''" by (auto simp: operators_def)
  with None show ?thesis by (simp add: rpn_token_def)
next
  case (Some info)
  show ?thesis
    unfolding rpn_token_operator [OF Some]
    by (auto split: list.splits sum.splits)
qed


text \<open>
  Claim C7. When the evaluator reaches an operator token with the operand stack
  \<open>stack\<close>, the most recently pushed value \<open>b\<close> is the right operand and the value
  \<open>a\<close> below it the left one: the operator's function is applied as \<open>f a b\<close> and its
  result replaces the two on the stack (after the test for a division by zero, and
  unless the function itself raises). With fewer than two values on the stack the
  evaluator fails with \<open>InsufficientOperands\<close>.
\<close>

theorem evaluate_rpn_operator_step:
  assumes "operators A token = Some info"
    and "rpn_loop A pre stack0 = Inr stack"
  shows "rpn_loop A (pre @ [token]) stack0 =
     (case stack of
        b # a # rest \<Rightarrow>
          if token = ''/'' \<and> eq_zero A b then Inl DivisionByZero
          else (case func info a b of Inl x \<Rightarrow> Inl (Builtin x) | Inr r \<Rightarrow> Inr (r # rest))
      | _ \<Rightarrow> Inl InsufficientOperands)"
proof -
  have "rpn_loop A (pre @ [token]) stack0 = rpn_token A token stack"
    using assms(2) by (simp add: rpn_loop_append split: sum.splits)
  then show ?thesis
    by (simp only: rpn_token_operator [OF assms(1)])
qed

theorem evaluate_rpn_operator_step_witness:
  "rpn_loop exact_arith ([''5'', ''3''] @ [''-'']) [] = Inr [Exact 2] \<and>
   rpn_loop exact_arith ([''5''] @ [''-'']) [] = Inl InsufficientOperands \<and>
   rpn_loop exact_arith ([] @ [''^'']) [] = Inl InsufficientOperands"
proof -
  have o1: "operators exact_arith ''-'' =
      Some \<lparr>precedence = 1, associativity = ''left'', func = sub exact_arith\<rparr>"
    by (rule operators_simps)
  have o2: "operators exact_arith ''^'' =
      Some \<lparr>precedence = 3, associativity = ''right'', func = pow exact_arith\<rparr>"
    by (rule operators_simps)
  have a: "rpn_loop exact_arith [''5'', ''3''] [] = Inr [Exact 3, Exact 5]" by code_simp
  have b: "rpn_loop exact_arith [''5''] [] = Inr [Exact 5]" by code_simp
  have c: "rpn_loop exact_arith [] [] = Inr ([] :: dval list)" by simp
  have 1: "rpn_loop exact_arith ([''5'', ''3''] @ [''-'']) [] = Inr [Exact 2]"
    using evaluate_rpn_operator_step [OF o1 a] by (simp add: exact_arith_def)
  have 2: "rpn_loop exact_arith ([''5''] @ [''-'']) [] = Inl InsufficientOperands"
    using evaluate_rpn_operator_step [OF o1 b] by simp
  have 3: "rpn_loop exact_arith ([] @ [''^'']) [] = Inl InsufficientOperands"
    using evaluate_rpn_operator_step [OF o2 c] by simp
  from 1 2 3 show ?thesis by blast
qed

text \<open>
  Claim C6. A turn of the evaluator fails with \<open>DivisionByZero\<close> exactly when the token
  is \<^verbatim>\<open>/\<close>, two operands are on the stack and the most recently pushed one is zero;
  this holds whatever \<^verbatim>\<open>truediv\<close> would do, so the test comes before the arithmetic.
  Hence \<^verbatim>\<open>evaluate_rpn\<close> fails with this kind exactly when it reaches a \<^verbatim>\<open>/\<close> in that
  situation, as it does on \<^verbatim>\<open>["5", "0", "/"]\<close>.
\<close>

theorem evaluate_rpn_division_by_zero:
  "(rpn_token A token stack = Inl DivisionByZero \<longleftrightarrow>
      token = ''/'' \<and> (\<exists>b a rest. stack = b # a # rest \<and> eq_zero A b)) \<and>
   (evaluate_rpn A rpn_expression = Inl DivisionByZero \<longleftrightarrow>
      (\<exists>pre post b a rest. rpn_expression = pre @ ''/'' # post \<and>
         rpn_loop A pre [] = Inr (b # a # rest) \<and> eq_zero A b)) \<and>
   (eq_zero A (float_of A ''0'') \<longrightarrow> evaluate_rpn A [''5'', ''0'', ''/''] = Inl DivisionByZero)"
proof (intro conjI)
  show "rpn_token A token stack = Inl DivisionByZero \<longleftrightarrow>
      token = ''/'' \<and> (\<exists>b a rest. stack = b # a # rest \<and> eq_zero A b)"
    by (rule rpn_token_DivisionByZero)
next
  have "evaluate_rpn A rpn_expression = Inl DivisionByZero \<longleftrightarrow>
      rpn_loop A rpn_expression [] = Inl DivisionByZero"
    by (simp add: evaluate_rpn_def split: sum.splits)
  also have "\<dots> \<longleftrightarrow> (\<exists>pre t post st'. rpn_expression = pre @ t # post \<and>
      rpn_loop A pre [] = Inr st' \<and> rpn_token A t st' = Inl DivisionByZero)"
    by (rule rpn_loop_Inl_iff)
  also have "\<dots> \<longleftrightarrow> (\<exists>pre post b a rest. rpn_expression = pre @ ''/'' # post \<and>
         rpn_loop A pre [] = Inr (b # a # rest) \<and> eq_zero A b)"
    unfolding rpn_token_DivisionByZero by blast
  finally show "evaluate_rpn A rpn_expression = Inl DivisionByZero \<longleftrightarrow>
      (\<exists>pre post b a rest. rpn_expression = pre @ ''/'' # post \<and>
         rpn_loop A pre [] = Inr (b # a # rest) \<and> eq_zero A b)" .
next
  have n: "is_number ''5''" "is_number ''0''"
    by (simp_all add: is_number_def float_syntax_def float_strip_def float_space_def
      drop_sign_def float_number_def is_digit_def to_lower_def)
  show "eq_zero A (float_of A ''0'') \<longrightarrow> evaluate_rpn A [''5'', ''0'', ''/''] = Inl DivisionByZero"
    using n is_number_symbols
    by (simp add: evaluate_rpn_def rpn_token_def operators_simps)
qed

theorem evaluate_rpn_division_by_zero_witness:
  "evaluate_rpn exact_arith [''5'', ''0'', ''/''] = Inl DivisionByZero \<and>
   rpn_token exact_arith ''/'' [Exact 0, Exact 5] = Inl DivisionByZero \<and>
   rpn_token exact_arith ''/'' [Exact 5, Exact 0] \<noteq> Inl DivisionByZero \<and>
   rpn_token exact_arith ''^'' [Exact (- 1), Exact 0] \<noteq> Inl DivisionByZero"
proof -
  have z: "eq_zero exact_arith (float_of exact_arith ''0'')" by code_simp
  have 1: "evaluate_rpn exact_arith [''5'', ''0'', ''/''] = Inl DivisionByZero"
    using evaluate_rpn_division_by_zero [of exact_arith] z by blast
  have y: "eq_zero exact_arith (Exact 0)" "\<not> eq_zero exact_arith (Exact 5)"
    by (simp_all add: exact_arith_def)
  have 2: "rpn_token exact_arith ''/'' [Exact 0, Exact 5] = Inl DivisionByZero"
    using evaluate_rpn_division_by_zero [of exact_arith "''/''" "[Exact 0, Exact 5]"] y by simp
  have 3: "rpn_token exact_arith ''/'' [Exact 5, Exact 0] \<noteq> Inl DivisionByZero"
    using evaluate_rpn_division_by_zero [of exact_arith "''/''" "[Exact 5, Exact 0]"] y by simp
  have 4: "rpn_token exact_arith ''^'' [Exact (- 1), Exact 0] \<noteq> Inl DivisionByZero"
    using evaluate_rpn_division_by_zero [of exact_arith "''^''" "[Exact (- 1), Exact 0]"] by simp
  from 1 2 3 4 show ?thesis by blast
qed

subsection \<open>The converter\<close>

lemma should_pop_operator_Some:
  assumes "operators A current_op = Some c" and "operators A stack_top = Some s"
  shows "should_pop_operator A current_op stack_top =
     Inr (precedence c < precedence s \<or>
          (precedence s = precedence c \<and> associativity c = ''left''))"
  using assms by (simp add: should_pop_operator_def)

lemma should_pop_operator_None:
  "operators A stack_top = None \<Longrightarrow> should_pop_operator A current_op stack_top = Inr False"
  by (simp add: should_pop_operator_def)

lemma should_pop_operator_total:
  assumes "operators A current_op = Some c"
  shows "\<exists>b. should_pop_operator A current_op stack_top = Inr b"
  using assms by (cases "operators A stack_top") (auto simp: should_pop_operator_def)

lemma should_pop_operator_True:
  "should_pop_operator A current_op stack_top = Inr True \<Longrightarrow> stack_top \<in> dom (operators A)"
  by (cases "operators A stack_top") (auto simp: should_pop_operator_def)

lemma pop_operators_result:
  assumes "operators A token = Some c"
  shows "\<exists>popped rest. pop_operators A token out stack = Inr (out @ popped, rest) \<and>
     stack = popped @ rest \<and> set popped \<subseteq> dom (operators A)"
proof (induction stack arbitrary: out)
  case Nil
  then show ?case by simp
next
  case (Cons s stack)
  from should_pop_operator_total [OF assms] obtain b
    where b: "should_pop_operator A token s = Inr b" by blast
  show ?case
  proof (cases "s \<noteq> ''('' \<and> b")
    case True
    with b have s: "s \<in> dom (operators A)" using should_pop_operator_True [of A token s] by simp
    from Cons.IH [of "out @ [s]"] obtain popped rest where
      h: "pop_operators A token (out @ [s]) stack = Inr ((out @ [s]) @ popped, rest)"
        "stack = popped @ rest" "set popped \<subseteq> dom (operators A)" by blast
    from True b h(1) have "pop_operators A token out (s # stack) = Inr (out @ (s # popped), rest)"
      by simp
    moreover from h(2) have "s # stack = (s # popped) @ rest" by simp
    moreover from h(3) s have "set (s # popped) \<subseteq> dom (operators A)" by simp
    ultimately show ?thesis by blast
  next
    case False
    with b have "pop_operators A token out (s # stack) = Inr (out @ [], s # stack)"
      by auto
    then show ?thesis by (metis append_Nil empty_set empty_subsetI)
  qed
qed

lemma sy_token_operator:
  assumes "operators A token = Some c"
  shows "sy_token A token (out, stack) =
     (case pop_operators A token out stack of
        Inl e \<Rightarrow> Inl e
      | Inr (out', stack') \<Rightarrow> Inr (out', token # stack'))"
proof -
  from assms have "token \<in> {''+'', ''-'', ''*'', ''/'', ''^''}"
    using operators_Some_iff [of A token] by blast
  then have "\<not> is_number token" using is_number_symbols by auto
  moreover from assms have "token \<in> dom (operators A)" by blast
  ultimately show ?thesis by (simp add: sy_token_def)
qed

lemma close_paren_Inl_iff:
  "close_paren out stack = Inl e \<longleftrightarrow> e = UnbalancedParentheses \<and> ''('' \<notin> set stack"
  by (induction stack arbitrary: out) auto

lemma close_paren_Inr:
  "close_paren out stack = Inr (out', stack') \<Longrightarrow>
     out' = out @ takeWhile (\<lambda>s. s \<noteq> ''('') stack \<and>
     dropWhile (\<lambda>s. s \<noteq> ''('') stack = ''('' # stack'"
proof (induction stack arbitrary: out)
  case Nil
  then show ?case by simp
next
  case (Cons a stack)
  show ?case
  proof (cases "a = ''(''")
    case True
    with Cons.prems show ?thesis by simp
  next
    case False
    with Cons.prems have "close_paren (out @ [a]) stack = Inr (out', stack')" by simp
    from Cons.IH [OF this] False show ?thesis by simp
  qed
qed

lemma drain_Inl_iff:
  "drain out stack = Inl e \<longleftrightarrow>
     e = UnbalancedParentheses \<and> (\<exists>p \<in> set stack. p \<in> {'''', ''('', '')'', ''()''})"
  by (induction stack arbitrary: out) auto

lemma drain_Inr:
  "drain out stack = Inr out' \<Longrightarrow> out' = out @ stack"
proof (induction stack arbitrary: out)
  case Nil
  then show ?case by simp
next
  case (Cons a stack)
  then have "drain (out @ [a]) stack = Inr out'" by (simp split: if_splits)
  from Cons.IH [OF this] show ?case by simp
qed

lemma sy_token_Inl_iff:
  "sy_token A token (out, stack) = Inl e \<longleftrightarrow>
     e = UnbalancedParentheses \<and> token = '')'' \<and> ''('' \<notin> set stack"
proof (cases "operators A token")
  case (Some c)
  from pop_operators_result [OF Some, of out stack] obtain popped rest
    where "pop_operators A token out stack = Inr (out @ popped, rest)" by blast
  moreover from Some have "token \<noteq> '')''" by (auto simp: operators_def)
  ultimately show ?thesis by (simp add: sy_token_operator [OF Some])
next
  case None
  then have "token \<notin> dom (operators A)" by blast
  then show ?thesis
    using is_number_symbols(7) by (auto simp: sy_token_def close_paren_Inl_iff)
qed

lemma sy_loop_append:
  "sy_loop A (xs @ ys) st =
     (case sy_loop A xs st of Inl e \<Rightarrow> Inl e | Inr st' \<Rightarrow> sy_loop A ys st')"
  by (induction xs arbitrary: st) (auto split: sum.splits)

lemma sy_loop_Inl_iff:
  "sy_loop A ts st = Inl e \<longleftrightarrow>
     (\<exists>pre t post st'. ts = pre @ t # post \<and> sy_loop A pre st = Inr st' \<and> sy_token A t st' = Inl e)"
proof
  show "sy_loop A ts st = Inl e \<Longrightarrow>
     \<exists>pre t post st'. ts = pre @ t # post \<and> sy_loop A pre st = Inr st' \<and> sy_token A t st' = Inl e"
  proof (induction ts arbitrary: st)
    case Nil
    then show ?case by simp
  next
    case (Cons a ts)
    show ?case
    proof (cases "sy_token A a st")
      case (Inl e')
      with Cons.prems have "a # ts = [] @ a # ts \<and> sy_loop A [] st = Inr st \<and> sy_token A a st = Inl e"
        by simp
      then show ?thesis by blast
    next
      case (Inr st1)
      with Cons.prems have "sy_loop A ts st1 = Inl e" by simp
      from Cons.IH [OF this] obtain pre t post st' where h: "ts = pre @ t # post"
        "sy_loop A pre st1 = Inr st'" "sy_token A t st' = Inl e" by blast
      with Inr have "a # ts = (a # pre) @ t # post \<and> sy_loop A (a # pre) st = Inr st' \<and>
        sy_token A t st' = Inl e" by simp
      then show ?thesis by blast
    qed
  qed
next
  assume "\<exists>pre t post st'. ts = pre @ t # post \<and> sy_loop A pre st = Inr st' \<and> sy_token A t st' = Inl e"
  then obtain pre t post st' where h: "ts = pre @ t # post"
    "sy_loop A pre st = Inr st'" "sy_token A t st' = Inl e" by blast
  then show "sy_loop A ts st = Inl e" by (simp add: sy_loop_append)
qed

lemma sy_token_stack:
  assumes "sy_token A token (out, stack) = Inr (out', stack')"
    and "set stack \<subseteq> insert ''('' (dom (operators A))"
    and "\<forall>t \<in> set out. is_number t \<or> t \<in> dom (operators A)"
  shows "set stack' \<subseteq> insert ''('' (dom (operators A)) \<and>
     (\<forall>t \<in> set out'. is_number t \<or> t \<in> dom (operators A))"
proof (cases "operators A token")
  case (Some c)
  from pop_operators_result [OF Some, of out stack] obtain popped rest
    where p: "pop_operators A token out stack = Inr (out @ popped, rest)" "stack = popped @ rest"
      "set popped \<subseteq> dom (operators A)" by blast
  with assms(1) have "out' = out @ popped" "stack' = token # rest"
    by (simp_all add: sy_token_operator [OF Some])
  moreover from Some have "token \<in> dom (operators A)" by blast
  ultimately show ?thesis using p(2,3) assms(2,3) by auto
next
  case None
  then have n: "token \<notin> dom (operators A)" by blast
  show ?thesis
  proof (cases "is_number token")
    case True
    with assms show ?thesis by (auto simp: sy_token_def)
  next
    case False
    show ?thesis
    proof (cases "token = '')''")
      case True
      with False n assms(1) have "close_paren out stack = Inr (out', stack')"
        by (simp add: sy_token_def)
      from close_paren_Inr [OF this] have
        o: "out' = out @ takeWhile (\<lambda>s. s \<noteq> ''('') stack"
        and s: "dropWhile (\<lambda>s. s \<noteq> ''('') stack = ''('' # stack'" by simp_all
      have "set stack' \<subseteq> set (dropWhile (\<lambda>s. s \<noteq> ''('') stack)" using s by auto
      also have "\<dots> \<subseteq> set stack" by (rule set_dropWhileD [THEN subsetI])
      finally have 1: "set stack' \<subseteq> insert ''('' (dom (operators A))" using assms(2) by blast
      have "\<forall>t \<in> set (takeWhile (\<lambda>s. s \<noteq> ''('') stack). t \<in> dom (operators A)"
      proof
        fix t assume t: "t \<in> set (takeWhile (\<lambda>s. s \<noteq> ''('') stack)"
        then have "t \<in> set stack" "t \<noteq> ''(''"
          by (auto dest: set_takeWhileD)
        with assms(2) show "t \<in> dom (operators A)" by blast
      qed
      with o assms(3) have 2: "\<forall>t \<in> set out'. is_number t \<or> t \<in> dom (operators A)" by auto
      from 1 2 show ?thesis by blast
    next
      case f: False
      with False n assms show ?thesis by (auto simp: sy_token_def split: if_splits)
    qed
  qed
qed

lemma sy_loop_stack:
  assumes "sy_loop A ts (out, stack) = Inr (out', stack')"
    and "set stack \<subseteq> insert ''('' (dom (operators A))"
    and "\<forall>t \<in> set out. is_number t \<or> t \<in> dom (operators A)"
  shows "set stack' \<subseteq> insert ''('' (dom (operators A)) \<and>
     (\<forall>t \<in> set out'. is_number t \<or> t \<in> dom (operators A))"
  using assms
proof (induction ts arbitrary: out stack)
  case Nil
  then show ?case by simp
next
  case (Cons a ts)
  from Cons.prems(1) obtain o1 s1 where 1: "sy_token A a (out, stack) = Inr (o1, s1)"
    and 2: "sy_loop A ts (o1, s1) = Inr (out', stack')"
    by (cases "sy_token A a (out, stack)") auto
  from sy_token_stack [OF 1 Cons.prems(2,3)] Cons.IH [OF 2] show ?case by blast
qed

text \<open>
  Claim C2. When an operator \<open>token\<close> arrives and an operator \<open>s\<close> is on top of the
  operator stack, \<open>s\<close> goes to the output before \<open>token\<close> is pushed exactly when the
  precedence of \<open>s\<close> is greater than that of \<open>token\<close>, or the two are equal and
  \<open>token\<close> is left-associative; otherwise \<open>token\<close> is pushed on top of \<open>s\<close>. So
  \<^verbatim>\<open>2^3^2\<close> becomes \<^verbatim>\<open>2 3 2 ^ ^\<close> and \<^verbatim>\<open>2-3-4\<close> becomes \<^verbatim>\<open>2 3 - 4 -\<close>.
\<close>

theorem shunting_yard_should_pop:
  assumes "operators A token = Some c" and "operators A s = Some i"
  shows "should_pop_operator A token s =
       Inr (precedence c < precedence i \<or>
            (precedence i = precedence c \<and> associativity c = ''left'')) \<and>
     sy_token A token (out, s # stack) =
       (if precedence c < precedence i \<or>
           (precedence i = precedence c \<and> associativity c = ''left'')
        then sy_token A token (out @ [s], stack)
        else Inr (out, token # s # stack)) \<and>
     shunting_yard A ''2^3^2'' = Inr [''2'', ''3'', ''2'', ''^'', ''^''] \<and>
     shunting_yard A ''2-3-4'' = Inr [''2'', ''3'', ''-'', ''4'', ''-'']"
proof (intro conjI)
  show p: "should_pop_operator A token s =
       Inr (precedence c < precedence i \<or>
            (precedence i = precedence c \<and> associativity c = ''left''))"
    by (rule should_pop_operator_Some [OF assms])
  from assms(2) have "s \<noteq> ''(''" by (auto simp: operators_def)
  then show "sy_token A token (out, s # stack) =
       (if precedence c < precedence i \<or>
           (precedence i = precedence c \<and> associativity c = ''left'')
        then sy_token A token (out @ [s], stack)
        else Inr (out, token # s # stack))"
    by (simp add: sy_token_operator [OF assms(1)] p)
  show "shunting_yard A ''2^3^2'' = Inr [''2'', ''3'', ''2'', ''^'', ''^'']"
    by code_simp
  show "shunting_yard A ''2-3-4'' = Inr [''2'', ''3'', ''-'', ''4'', ''-'']"
    by code_simp
qed

theorem shunting_yard_should_pop_witness:
  "sy_token exact_arith ''^'' ([''2'', ''3''], [''^'']) = Inr ([''2'', ''3''], [''^'', ''^'']) \<and>
   sy_token exact_arith ''-'' ([''2'', ''3''], [''-'']) = Inr ([''2'', ''3'', ''-''], [''-'']) \<and>
   sy_token exact_arith ''+'' ([''2'', ''3''], [''*'']) = Inr ([''2'', ''3'', ''*''], [''+'']) \<and>
   sy_token exact_arith ''*'' ([''2'', ''3''], [''+'']) = Inr ([''2'', ''3''], [''*'', ''+''])"
proof -
  have e: "sy_token exact_arith ''-'' ([''2'', ''3'', ''-''], []) = Inr ([''2'', ''3'', ''-''], [''-''])"
    "sy_token exact_arith ''+'' ([''2'', ''3'', ''*''], []) = Inr ([''2'', ''3'', ''*''], [''+''])"
    by code_simp+
  have 1: "sy_token exact_arith ''^'' ([''2'', ''3''], [''^'']) = Inr ([''2'', ''3''], [''^'', ''^''])"
    using shunting_yard_should_pop [OF operators_simps(5) [of exact_arith] operators_simps(5) [of exact_arith],
        where out = "[''2'', ''3'']" and stack = "[]"]
    by simp
  have 2: "sy_token exact_arith ''-'' ([''2'', ''3''], [''-'']) = Inr ([''2'', ''3'', ''-''], [''-''])"
    using shunting_yard_should_pop [OF operators_simps(2) [of exact_arith] operators_simps(2) [of exact_arith],
        where out = "[''2'', ''3'']" and stack = "[]"] e
    by simp
  have 3: "sy_token exact_arith ''+'' ([''2'', ''3''], [''*'']) = Inr ([''2'', ''3'', ''*''], [''+''])"
    using shunting_yard_should_pop [OF operators_simps(1) [of exact_arith] operators_simps(3) [of exact_arith],
        where out = "[''2'', ''3'']" and stack = "[]"] e
    by simp
  have 4: "sy_token exact_arith ''*'' ([''2'', ''3''], [''+'']) = Inr ([''2'', ''3''], [''*'', ''+''])"
    using shunting_yard_should_pop [OF operators_simps(3) [of exact_arith] operators_simps(1) [of exact_arith],
        where out = "[''2'', ''3'']" and stack = "[]"]
    by simp
  from 1 2 3 4 show ?thesis by blast
qed

lemma sy_loop_start_stack:
  assumes "sy_loop A ts ([], []) = Inr (out, stack)"
  shows "set stack \<subseteq> insert ''('' (dom (operators A)) \<and>
     (\<forall>t \<in> set out. is_number t \<or> t \<in> dom (operators A))"
  using sy_loop_stack [OF assms] by simp

lemma shunting_yard_Inl_iff:
  "shunting_yard A expression = Inl e \<longleftrightarrow>
     e = UnbalancedParentheses \<and>
     ((\<exists>pre post out stack. tokenize expression = pre @ '')'' # post \<and>
          sy_loop A pre ([], []) = Inr (out, stack) \<and> ''('' \<notin> set stack) \<or>
      (\<exists>out stack. sy_loop A (tokenize expression) ([], []) = Inr (out, stack) \<and>
          (''('' \<in> set stack \<or> '')'' \<in> set stack)))"
proof (cases "sy_loop A (tokenize expression) ([], [])")
  case (Inl e')
  then have s: "shunting_yard A expression = Inl e'" by (simp add: shunting_yard_def)
  from Inl obtain pre t post st' where h: "tokenize expression = pre @ t # post"
    "sy_loop A pre ([], []) = Inr st'" "sy_token A t st' = Inl e'"
    using sy_loop_Inl_iff [of A "tokenize expression" "([], [])" e'] by blast
  obtain out stack where st': "st' = (out, stack)" by (cases st')
  from h(3) have e': "e' = UnbalancedParentheses" "t = '')''" "''('' \<notin> set stack"
    unfolding st' sy_token_Inl_iff by simp_all
  with h st' have "\<exists>pre post out stack. tokenize expression = pre @ '')'' # post \<and>
          sy_loop A pre ([], []) = Inr (out, stack) \<and> ''('' \<notin> set stack" by blast
  with s e'(1) Inl show ?thesis by auto
next
  case (Inr st)
  obtain out stack where st: "st = (out, stack)" by (cases st)
  have d: "shunting_yard A expression = drain out stack"
    using Inr st by (simp add: shunting_yard_def)
  have no: "\<not> (\<exists>pre post out stack. tokenize expression = pre @ '')'' # post \<and>
          sy_loop A pre ([], []) = Inr (out, stack) \<and> ''('' \<notin> set stack)"
  proof
    assume "\<exists>pre post out stack. tokenize expression = pre @ '')'' # post \<and>
          sy_loop A pre ([], []) = Inr (out, stack) \<and> ''('' \<notin> set stack"
    then obtain pre post out1 stack1 where h: "tokenize expression = pre @ '')'' # post"
      "sy_loop A pre ([], []) = Inr (out1, stack1)" "''('' \<notin> set stack1" by blast
    then have "sy_token A '')'' (out1, stack1) = Inl UnbalancedParentheses"
      by (simp add: sy_token_Inl_iff)
    with h(1,2) have "sy_loop A (tokenize expression) ([], []) = Inl UnbalancedParentheses"
      using sy_loop_Inl_iff [of A "tokenize expression" "([], [])" UnbalancedParentheses] by blast
    with Inr show False by simp
  qed
  from sy_loop_start_stack [of A "tokenize expression" out stack] Inr st
  have inv: "set stack \<subseteq> insert ''('' (dom (operators A))" by simp
  have "(\<exists>p \<in> set stack. p \<in> {'''', ''('', '')'', ''()''}) \<longleftrightarrow>
      (''('' \<in> set stack \<or> '')'' \<in> set stack)"
    using inv by (auto simp: operators_dom)
  then have "drain out stack = Inl e \<longleftrightarrow>
      e = UnbalancedParentheses \<and> (''('' \<in> set stack \<or> '')'' \<in> set stack)"
    by (simp only: drain_Inl_iff)
  moreover have "(\<exists>out stack. sy_loop A (tokenize expression) ([], []) = Inr (out, stack) \<and>
          (''('' \<in> set stack \<or> '')'' \<in> set stack)) \<longleftrightarrow>
      (''('' \<in> set stack \<or> '')'' \<in> set stack)"
    using Inr st by simp
  ultimately have "shunting_yard A expression = Inl e \<longleftrightarrow>
      e = UnbalancedParentheses \<and>
      (\<exists>out stack. sy_loop A (tokenize expression) ([], []) = Inr (out, stack) \<and>
          (''('' \<in> set stack \<or> '')'' \<in> set stack))"
    by (simp only: d)
  with no show ?thesis by (simp only: simp_thms)
qed

text \<open>
  Claim C3. A turn of the converter fails exactly when the token is a closing
  parenthesis and the operator stack holds no opening parenthesis (the stack empties
  without one being found), and the error is then \<open>UnbalancedParentheses\<close>. The
  converter as a whole fails exactly in two situations, both with that error: a closing
  parenthesis is reached in such a state, or all tokens are consumed and a parenthesis
  is left on the operator stack. \<^verbatim>\<open>(2+3\<close> and \<^verbatim>\<open>2+3)\<close> both fail so.
\<close>

theorem shunting_yard_unbalanced:
  "(sy_token A token (out0, stack0) = Inl e \<longleftrightarrow>
      e = UnbalancedParentheses \<and> token = '')'' \<and> ''('' \<notin> set stack0) \<and>
   (shunting_yard A expression = Inl e \<longleftrightarrow>
      e = UnbalancedParentheses \<and>
      ((\<exists>pre post out stack. tokenize expression = pre @ '')'' # post \<and>
           sy_loop A pre ([], []) = Inr (out, stack) \<and> ''('' \<notin> set stack) \<or>
       (\<exists>out stack. sy_loop A (tokenize expression) ([], []) = Inr (out, stack) \<and>
           (''('' \<in> set stack \<or> '')'' \<in> set stack)))) \<and>
   calculate A ''(2+3'' = Inl UnbalancedParentheses \<and>
   calculate A ''2+3)'' = Inl UnbalancedParentheses"
proof (intro conjI)
  show "sy_token A token (out0, stack0) = Inl e \<longleftrightarrow>
      e = UnbalancedParentheses \<and> token = '')'' \<and> ''('' \<notin> set stack0"
    by (rule sy_token_Inl_iff)
  show "shunting_yard A expression = Inl e \<longleftrightarrow>
      e = UnbalancedParentheses \<and>
      ((\<exists>pre post out stack. tokenize expression = pre @ '')'' # post \<and>
           sy_loop A pre ([], []) = Inr (out, stack) \<and> ''('' \<notin> set stack) \<or>
       (\<exists>out stack. sy_loop A (tokenize expression) ([], []) = Inr (out, stack) \<and>
           (''('' \<in> set stack \<or> '')'' \<in> set stack)))"
    by (rule shunting_yard_Inl_iff)
  have "shunting_yard A ''(2+3'' = Inl UnbalancedParentheses" by code_simp
  then show "calculate A ''(2+3'' = Inl UnbalancedParentheses" by (simp add: calculate_def)
  have "shunting_yard A ''2+3)'' = Inl UnbalancedParentheses" by code_simp
  then show "calculate A ''2+3)'' = Inl UnbalancedParentheses" by (simp add: calculate_def)
qed

theorem shunting_yard_unbalanced_witness:
  "shunting_yard exact_arith ''2+3)'' = Inl UnbalancedParentheses \<and>
   shunting_yard exact_arith ''(2+3'' = Inl UnbalancedParentheses \<and>
   shunting_yard exact_arith ''(2+3)'' \<noteq> Inl UnbalancedParentheses"
proof -
  note iff = shunting_yard_unbalanced [THEN conjunct2, THEN conjunct1]
  have t1: "tokenize ''2+3)'' = [''2'', ''+'', ''3''] @ '')'' # []" by code_simp
  have s1: "sy_loop exact_arith [''2'', ''+'', ''3''] ([], []) = Inr ([''2'', ''3''], [''+''])"
    by code_simp
  have n1: "''('' \<notin> set [''+'']" by simp
  from t1 s1 n1 have "\<exists>pre post out stack. tokenize ''2+3)'' = pre @ '')'' # post \<and>
      sy_loop exact_arith pre ([], []) = Inr (out, stack) \<and> ''('' \<notin> set stack"
    by blast
  then have 1: "shunting_yard exact_arith ''2+3)'' = Inl UnbalancedParentheses"
    by (simp only: iff simp_thms)
  have s2: "sy_loop exact_arith (tokenize ''(2+3'') ([], []) = Inr ([''2'', ''3''], [''+'', ''(''])"
    by code_simp
  have n2: "''('' \<in> set [''+'', ''(''] \<or> '')'' \<in> set [''+'', ''('']" by simp
  from s2 n2 have "\<exists>out stack. sy_loop exact_arith (tokenize ''(2+3'') ([], []) = Inr (out, stack) \<and>
      (''('' \<in> set stack \<or> '')'' \<in> set stack)"
    by blast
  then have 2: "shunting_yard exact_arith ''(2+3'' = Inl UnbalancedParentheses"
    by (simp only: iff simp_thms)
  have 3: "shunting_yard exact_arith ''(2+3)'' \<noteq> Inl UnbalancedParentheses" by code_simp
  from 1 2 3 show ?thesis by blast
qed

subsection \<open>The whole calculation\<close>

lemma rpn_loop_known_tokens:
  assumes "\<forall>t \<in> set ts. is_number t \<or> t \<in> dom (operators A)"
  shows "rpn_loop A ts st \<noteq> Inl (UnknownToken u)"
proof
  assume "rpn_loop A ts st = Inl (UnknownToken u)"
  then obtain pre t post st' where h: "ts = pre @ t # post"
    "rpn_token A t st' = Inl (UnknownToken u)"
    using rpn_loop_Inl_iff [of A ts st "UnknownToken u"] by blast
  from h(2) have "\<not> is_number t \<and> operators A t = None"
    by (auto simp: rpn_token_def Let_def split: if_splits option.splits sum.splits)
  moreover from h(1) assms have "is_number t \<or> t \<in> dom (operators A)" by simp
  ultimately show False by blast
qed

lemma shunting_yard_output:
  assumes "shunting_yard A expression = Inr rpn"
  shows "\<forall>t \<in> set rpn. is_number t \<or> t \<in> dom (operators A)"
proof -
  from assms obtain out stack where
    l: "sy_loop A (tokenize expression) ([], []) = Inr (out, stack)" and d: "drain out stack = Inr rpn"
    by (auto simp: shunting_yard_def split: sum.splits)
  from sy_loop_start_stack [OF l] have
    s: "set stack \<subseteq> insert ''('' (dom (operators A))"
    and o: "\<forall>t \<in> set out. is_number t \<or> t \<in> dom (operators A)" by simp_all
  from d have "\<not> (\<exists>p \<in> set stack. p \<in> {'''', ''('', '')'', ''()''})"
    using drain_Inl_iff [of out stack UnbalancedParentheses]
    by (cases "\<exists>p \<in> set stack. p \<in> {'''', ''('', '')'', ''()''}") simp_all
  then have "''('' \<notin> set stack" by blast
  with s have "set stack \<subseteq> dom (operators A)" by blast
  moreover from d have "rpn = out @ stack" by (rule drain_Inr)
  ultimately show ?thesis using o by auto
qed

lemma shunting_yard_error:
  "shunting_yard A expression = Inl e \<Longrightarrow> e = UnbalancedParentheses"
  by (simp add: shunting_yard_Inl_iff)

lemma evaluate_rpn_error:
  "evaluate_rpn A ts = Inl e \<Longrightarrow>
     e = InsufficientOperands \<or> e = DivisionByZero \<or> (\<exists>t. e = UnknownToken t) \<or>
     (\<exists>x. e = Builtin x) \<or> e = MalformedExpression"
proof (cases "rpn_loop A ts []")
  case (Inl e')
  assume "evaluate_rpn A ts = Inl e"
  with Inl have "e' = e" by (simp add: evaluate_rpn_def)
  with Inl rpn_loop_error [of A ts "[]" e] show ?thesis by blast
next
  case (Inr st)
  assume "evaluate_rpn A ts = Inl e"
  with Inr show ?thesis by (simp add: evaluate_rpn_def split: if_splits)
qed

text \<open>
  Claim C9. Every token of a sequence returned by \<^verbatim>\<open>shunting_yard\<close> is a number (in
  the sense of \<^verbatim>\<open>is_number\<close>) or one of the five operators, so \<^verbatim>\<open>evaluate_rpn\<close>
  does not fail with \<open>UnknownToken\<close> on it, and \<^verbatim>\<open>calculate\<close> never fails with
  \<open>UnknownToken\<close>.
\<close>

theorem calculate_no_unknown_token:
  "(shunting_yard A expression = Inr rpn \<longrightarrow>
      (\<forall>t \<in> set rpn. is_number t \<or> t \<in> {''+'', ''-'', ''*'', ''/'', ''^''}) \<and>
      evaluate_rpn A rpn \<noteq> Inl (UnknownToken u)) \<and>
   calculate A expression \<noteq> Inl (UnknownToken u)"
proof -
  have a: "(\<forall>t \<in> set r. is_number t \<or> t \<in> {''+'', ''-'', ''*'', ''/'', ''^''}) \<and>
      evaluate_rpn A r \<noteq> Inl (UnknownToken u)" if "shunting_yard A x = Inr r" for x r
  proof -
    from shunting_yard_output [OF that]
    have k: "\<forall>t \<in> set r. is_number t \<or> t \<in> dom (operators A)" .
    from rpn_loop_known_tokens [OF k, of "[]" u]
    have "evaluate_rpn A r \<noteq> Inl (UnknownToken u)"
      by (auto simp: evaluate_rpn_def split: sum.splits if_splits)
    with k show ?thesis by (simp only: operators_dom) simp
  qed
  have "calculate A expression \<noteq> Inl (UnknownToken u)"
  proof (cases "filter (\<lambda>c. c \<noteq> CHR '' '') expression = []")
    case True
    then show ?thesis by (simp add: calculate_def)
  next
    case False
    show ?thesis
    proof (cases "shunting_yard A (filter (\<lambda>c. c \<noteq> CHR '' '') expression)")
      case (Inl e)
      with False shunting_yard_error [OF Inl] show ?thesis by (simp add: calculate_def)
    next
      case (Inr r)
      with False a [OF Inr] show ?thesis by (simp add: calculate_def)
    qed
  qed
  with a show ?thesis by blast
qed

theorem calculate_no_unknown_token_witness:
  "shunting_yard exact_arith ''3+4*2'' = Inr [''3'', ''4'', ''2'', ''*'', ''+''] \<and>
   evaluate_rpn exact_arith [''3'', ''4'', ''2'', ''*'', ''+''] \<noteq> Inl (UnknownToken ''x'') \<and>
   calculate exact_arith ''3+4*2'' \<noteq> Inl (UnknownToken ''x'')"
proof -
  have s: "shunting_yard exact_arith ''3+4*2'' = Inr [''3'', ''4'', ''2'', ''*'', ''+'']"
    by code_simp
  note w = calculate_no_unknown_token [of exact_arith "''3+4*2''"
      "[''3'', ''4'', ''2'', ''*'', ''+'']" "''x''"]
  from w [THEN conjunct1, rule_format, OF s, THEN conjunct2] w [THEN conjunct2] s
  show ?thesis by (intro conjI)
qed

text \<open>
  Claim C4, as amended. \<^verbatim>\<open>calculate\<close> removes the space characters (code point 32)
  of the string, interior ones as well as leading and trailing ones, and no other
  whitespace. It fails with \<open>EmptyExpression\<close> exactly when nothing is left;
  otherwise its outcome is that of the converter followed by the evaluator.
\<close>

theorem calculate_empty_expression:
  "(calculate A expression = Inl EmptyExpression \<longleftrightarrow>
      filter (\<lambda>c. c \<noteq> CHR '' '') expression = []) \<and>
   (filter (\<lambda>c. c \<noteq> CHR '' '') expression \<noteq> [] \<longrightarrow>
      calculate A expression =
        (case shunting_yard A (filter (\<lambda>c. c \<noteq> CHR '' '') expression) of
           Inl e \<Rightarrow> Inl e
         | Inr rpn \<Rightarrow> evaluate_rpn A rpn))"
proof (cases "filter (\<lambda>c. c \<noteq> CHR '' '') expression = []")
  case True
  then show ?thesis by (simp add: calculate_def)
next
  case False
  have "calculate A expression \<noteq> Inl EmptyExpression"
  proof (cases "shunting_yard A (filter (\<lambda>c. c \<noteq> CHR '' '') expression)")
    case (Inl e)
    with False shunting_yard_error [OF Inl] show ?thesis by (simp add: calculate_def)
  next
    case (Inr r)
    have "evaluate_rpn A r \<noteq> Inl EmptyExpression"
      using evaluate_rpn_error [of A r EmptyExpression] by auto
    with False Inr show ?thesis by (simp add: calculate_def)
  qed
  with False show ?thesis by (simp add: calculate_def)
qed

theorem calculate_empty_expression_witness:
  "calculate exact_arith ''   '' = Inl EmptyExpression \<and>
   calculate exact_arith '' 2 + 3 '' = Inr (Exact 5)"
proof -
  have 1: "calculate exact_arith ''   '' = Inl EmptyExpression"
    using calculate_empty_expression [of exact_arith "''   ''"] by simp
  have s: "shunting_yard exact_arith ''2+3'' = Inr [''2'', ''3'', ''+'']" by code_simp
  have e: "evaluate_rpn exact_arith [''2'', ''3'', ''+''] = Inr (Exact 5)" by code_simp
  have 2: "calculate exact_arith '' 2 + 3 '' = Inr (Exact 5)"
    using calculate_empty_expression [of exact_arith "'' 2 + 3 ''"] s e by simp
  from 1 2 show ?thesis by blast
qed

theorem calculate_whitespace_counterexample:
  "strip_whitespace [CHR 0x09] = [] \<and>
   calculate exact_arith [CHR 0x09] = Inl MalformedExpression \<and>
   calculate exact_arith [CHR 0x09] \<noteq> Inl EmptyExpression"
  by (simp add: strip_whitespace_def py_isspace_def calculate_def shunting_yard_def
      is_digit_def evaluate_rpn_def)

subsection \<open>The tokenizer and the number classifier\<close>

lemma is_digit_chars:
  assumes "is_digit c"
  shows "\<not> float_space c" "c \<noteq> CHR ''_''" "c \<noteq> CHR ''+''" "c \<noteq> CHR ''-''" "c \<noteq> CHR ''.''"
    "c \<notin> set ''()+-*/^''"
  using assms by (auto simp: is_digit_def float_space_def)

lemma dropWhile_id: "xs = [] \<or> \<not> P (hd xs) \<Longrightarrow> dropWhile P xs = xs"
  by (cases xs) auto

lemma number_pattern_decompose:
  assumes "number_pattern s"
  obtains ds where "ds \<noteq> []" "list_all is_digit ds" "s = ds"
  | ds fr where "ds \<noteq> []" "list_all is_digit ds" "list_all is_digit fr" "s = ds @ CHR ''.'' # fr"
proof (cases "dropWhile is_digit s")
  case Nil
  then have "takeWhile is_digit s = s"
    by (metis append_Nil2 takeWhile_dropWhile_id)
  then have "list_all is_digit s"
    by (metis list_all_iff set_takeWhileD)
  moreover from assms have "takeWhile is_digit s \<noteq> []" by (simp add: number_pattern_def)
  then have "s \<noteq> []" by auto
  ultimately show ?thesis using that(1) by blast
next
  case (Cons d r)
  with assms have d: "d = CHR ''.''" and r: "list_all is_digit r"
    and n: "takeWhile is_digit s \<noteq> []"
    by (simp_all add: number_pattern_def)
  have "s = takeWhile is_digit s @ dropWhile is_digit s" by simp
  with Cons d have "s = takeWhile is_digit s @ CHR ''.'' # r" by simp
  moreover have "list_all is_digit (takeWhile is_digit s)"
    by (metis list_all_iff set_takeWhileD)
  ultimately show ?thesis using that(2) n r by blast
qed

lemma takeWhile_digits:
  "list_all is_digit ds \<Longrightarrow> rest = [] \<or> \<not> is_digit (hd rest) \<Longrightarrow>
     takeWhile is_digit (ds @ rest) = ds \<and> dropWhile is_digit (ds @ rest) = rest"
  by (induction ds) (auto simp: dropWhile_id intro: takeWhile_eq_Nil_iff [THEN iffD2] simp: neq_Nil_conv)


lemma float_strip_id:
  assumes "s \<noteq> []" "\<not> float_space (hd s)" "\<not> float_space (last s)"
  shows "float_strip s = s"
proof -
  from assms have "dropWhile float_space s = s" by (simp add: dropWhile_id)
  moreover from assms have "dropWhile float_space (rev s) = rev s"
    by (simp add: dropWhile_id hd_rev)
  ultimately show ?thesis by (simp add: float_strip_def)
qed

lemma underscores_ok_none:
  "CHR ''_'' \<notin> set s \<Longrightarrow> prev \<noteq> CHR ''_'' \<Longrightarrow> underscores_ok prev s"
  by (induction s arbitrary: prev) auto

lemma dropWhile_all: "list_all P xs \<Longrightarrow> dropWhile P xs = [] \<and> takeWhile P xs = xs"
  by (induction xs) auto

lemma float_number_pattern:
  assumes "number_pattern s"
  shows "float_number s"
  using assms
proof (cases rule: number_pattern_decompose)
  case (1 ds)
  then show ?thesis by (simp add: float_number_def dropWhile_all)
next
  case (2 ds fr)
  have "takeWhile is_digit (ds @ CHR ''.'' # fr) = ds \<and>
      dropWhile is_digit (ds @ CHR ''.'' # fr) = CHR ''.'' # fr"
    using 2(2) by (intro takeWhile_digits) (simp_all add: is_digit_def)
  with 2 show ?thesis
    by (simp add: float_number_def dropWhile_all exponent_ok_def)
qed

lemma number_pattern_chars:
  assumes "number_pattern s"
  shows "s \<noteq> [] \<and> is_digit (hd s) \<and> (\<forall>c \<in> set s. is_digit c \<or> c = CHR ''.'')"
  using assms
proof (cases rule: number_pattern_decompose)
  case (1 ds)
  then show ?thesis by (cases ds) (auto simp: list_all_iff)
next
  case (2 ds fr)
  then show ?thesis by (cases ds) (auto simp: list_all_iff)
qed

lemma is_number_pattern:
  assumes "number_pattern s"
  shows "is_number s"
proof -
  from number_pattern_chars [OF assms] have ne: "s \<noteq> []" and h: "is_digit (hd s)"
    and a: "\<forall>c \<in> set s. is_digit c \<or> c = CHR ''.''" by simp_all
  from ne a have "is_digit (last s) \<or> last s = CHR ''.''" by simp
  then have l: "\<not> float_space (last s)"
    by (auto simp: is_digit_def float_space_def)
  from h have "\<not> float_space (hd s)" by (rule is_digit_chars)
  with ne l have st: "float_strip s = s" by (simp add: float_strip_id)
  from a have nu: "CHR ''_'' \<notin> set s" by (auto simp: is_digit_def)
  then have u: "underscores_ok (CHR 0x00) s" by (rule underscores_ok_none) simp
  from nu have f: "filter (\<lambda>c. c \<noteq> CHR ''_'') s = s" by (auto simp: filter_id_conv)
  from ne h have d: "drop_sign s = s"
    by (cases s) (auto simp: drop_sign_def is_digit_def)
  from st u f d float_number_pattern [OF assms] show ?thesis
    by (simp add: is_number_def float_syntax_def)
qed

lemma number_pattern_integer:
  assumes "ds \<noteq> []" "list_all is_digit ds"
  shows "number_pattern ds"
  using assms by (simp add: number_pattern_def dropWhile_all)

lemma number_pattern_decimal:
  assumes "ds \<noteq> []" "list_all is_digit ds" "list_all is_digit fr"
  shows "number_pattern (ds @ CHR ''.'' # fr)"
proof -
  have "takeWhile is_digit (ds @ CHR ''.'' # fr) = ds \<and>
      dropWhile is_digit (ds @ CHR ''.'' # fr) = CHR ''.'' # fr"
    using assms(2) by (intro takeWhile_digits) (simp_all add: is_digit_def)
  with assms show ?thesis
    by (simp add: number_pattern_def)
qed


lemma tokenize_decimal:
  assumes "ds \<noteq> []" "list_all is_digit ds" "list_all is_digit fr"
    and "rest = [] \<or> \<not> is_digit (hd rest)"
  shows "tokenize (ds @ CHR ''.'' # fr @ rest) = (ds @ CHR ''.'' # fr) # tokenize rest"
proof -
  from assms(1) obtain c cs where ds: "ds = c # cs" by (cases ds) auto
  with assms(2) have c: "is_digit c" and cs: "list_all is_digit cs" by simp_all
  have "takeWhile is_digit (cs @ CHR ''.'' # fr @ rest) = cs \<and>
      dropWhile is_digit (cs @ CHR ''.'' # fr @ rest) = CHR ''.'' # fr @ rest"
    using cs by (intro takeWhile_digits) (simp_all add: is_digit_def)
  moreover from takeWhile_digits [OF assms(3,4)]
  have "takeWhile is_digit (fr @ rest) = fr" "dropWhile is_digit (fr @ rest) = rest" by simp_all
  ultimately show ?thesis using c ds by simp
qed



lemma tokenize_tokens:
  "t \<in> set (tokenize e) \<Longrightarrow> number_pattern t \<or> (\<exists>c \<in> set ''()+-*/^''. t = [c])"
proof (induction e rule: tokenize.induct)
  case 1
  then show ?case by simp
next
  case (2 c cs)
  show ?case
  proof (cases "is_digit c")
    case True
    have tk: "list_all is_digit (c # takeWhile is_digit cs)"
      using True by (auto simp: list_all_iff dest: set_takeWhileD)
    show ?thesis
    proof (cases "dropWhile is_digit cs")
      case Nil
      with True "2.prems" have "t = c # takeWhile is_digit cs" by simp
      with number_pattern_integer [OF _ tk] show ?thesis by simp
    next
      case (Cons d rest)
      show ?thesis
      proof (cases "d = CHR ''.''")
        case d: True
        have fr: "list_all is_digit (takeWhile is_digit rest)"
          by (auto simp: list_all_iff dest: set_takeWhileD)
        from True Cons d "2.prems" have
          "t = (c # takeWhile is_digit cs) @ CHR ''.'' # takeWhile is_digit rest \<or>
           t \<in> set (tokenize (dropWhile is_digit rest))" by auto
        then show ?thesis
        proof
          assume "t = (c # takeWhile is_digit cs) @ CHR ''.'' # takeWhile is_digit rest"
          with number_pattern_decimal [OF _ tk fr] show ?thesis by simp
        next
          assume "t \<in> set (tokenize (dropWhile is_digit rest))"
          with "2.IH"(1) [OF True Cons d] show ?thesis by simp
        qed
      next
        case d: False
        from True Cons d "2.prems" have
          "t = c # takeWhile is_digit cs \<or> t \<in> set (tokenize (d # rest))" by auto
        then show ?thesis
        proof
          assume "t = c # takeWhile is_digit cs"
          with number_pattern_integer [OF _ tk] show ?thesis by simp
        next
          assume "t \<in> set (tokenize (d # rest))"
          with "2.IH"(2) [OF True Cons d] show ?thesis by simp
        qed
      qed
    qed
  next
    case False
    show ?thesis
    proof (cases "c \<in> set ''()+-*/^''")
      case True
      with False "2.prems" have "t = [c] \<or> t \<in> set (tokenize cs)" by auto
      then show ?thesis
      proof
        assume "t = [c]"
        with True show ?thesis by blast
      next
        assume "t \<in> set (tokenize cs)"
        with "2.IH"(3) [OF False True] show ?thesis by simp
      qed
    next
      case f: False
      with False "2.prems" have "t \<in> set (tokenize cs)" by simp
      with "2.IH"(4) [OF False f] show ?thesis by simp
    qed
  qed
qed

lemma last_dropWhile: "dropWhile P xs \<noteq> [] \<Longrightarrow> last (dropWhile P xs) = last xs"
  by (metis last_appendR takeWhile_dropWhile_id)

lemma dropWhile_last:
  assumes "xs \<noteq> []" "\<not> P (last xs)"
  shows "dropWhile P xs \<noteq> [] \<and> dropWhile P (xs @ ys) = dropWhile P xs @ ys \<and>
     takeWhile P (xs @ ys) = takeWhile P xs"
proof -
  from assms have "last xs \<in> set xs" "\<not> P (last xs)" by simp_all
  then show ?thesis
    by (metis dropWhile_append1 takeWhile_append1 dropWhile_eq_Nil_conv)
qed

lemma tokenize_boundary:
  "pre = [] \<or> (\<not> is_digit (last pre) \<and> last pre \<noteq> CHR ''.'') \<Longrightarrow>
     tokenize (pre @ s) = tokenize pre @ tokenize s"
proof (induction pre rule: tokenize.induct)
  case 1
  then show ?case by simp
next
  case (2 c cs)
  from "2.prems" have l: "\<not> is_digit (last (c # cs))" "last (c # cs) \<noteq> CHR ''.''" by simp_all
  show ?case
  proof (cases "is_digit c")
    case True
    with l(1) have ne: "cs \<noteq> []" by auto
    with l have lc: "\<not> is_digit (last cs)" "last cs \<noteq> CHR ''.''" by simp_all
    from dropWhile_last [where P = is_digit and xs = cs and ys = s] ne lc(1) have
      dn: "dropWhile is_digit cs \<noteq> []"
      and da: "dropWhile is_digit (cs @ s) = dropWhile is_digit cs @ s"
      and ta: "takeWhile is_digit (cs @ s) = takeWhile is_digit cs" by simp_all
    from dn obtain d rest where dr: "dropWhile is_digit cs = d # rest" by (cases "dropWhile is_digit cs") auto
    have ld: "last (d # rest) = last cs" using last_dropWhile [OF dn] dr by simp
    show ?thesis
    proof (cases "d = CHR ''.''")
      case d: True
      with ld lc(2) have rn: "rest \<noteq> []" by auto
      with ld have lr: "last rest = last cs" by simp
      from dropWhile_last [where P = is_digit and xs = rest and ys = s] rn lr lc(1) have
        rdn: "dropWhile is_digit rest \<noteq> []"
        and rda: "dropWhile is_digit (rest @ s) = dropWhile is_digit rest @ s"
        and rta: "takeWhile is_digit (rest @ s) = takeWhile is_digit rest" by simp_all
      have "last (dropWhile is_digit rest) = last cs"
        using last_dropWhile [OF rdn] lr by simp
      with lc rdn have "tokenize (dropWhile is_digit rest @ s) =
          tokenize (dropWhile is_digit rest) @ tokenize s"
        using "2.IH"(1) [OF True dr d] by simp
      with True dr d da ta rda rta show ?thesis by simp
    next
      case d: False
      from ld lc have "tokenize ((d # rest) @ s) = tokenize (d # rest) @ tokenize s"
        using "2.IH"(2) [OF True dr d] by simp
      with True dr d da ta show ?thesis by simp
    qed
  next
    case False
    have p: "cs = [] \<or> (\<not> is_digit (last cs) \<and> last cs \<noteq> CHR ''.'')"
      using l by (cases "cs = []") simp_all
    show ?thesis
    proof (cases "c \<in> set ''()+-*/^''")
      case True
      from "2.IH"(3) [OF False True p] False True show ?thesis by simp
    next
      case f: False
      from "2.IH"(4) [OF False f p] False f show ?thesis by simp
    qed
  qed
qed

lemma is_number_examples:
  "is_number ''2.''" "is_number ''3''" "is_number ''.5''" "is_number ''inf''" "is_number ''nan''"
  "is_number ''1e5''"
  by code_simp+

lemma number_pattern_symbols:
  "c \<in> set ''()+-*/^'' \<Longrightarrow> \<not> number_pattern [c] \<and> \<not> is_number [c]"
  using is_number_symbols by (auto simp: number_pattern_def is_digit_def)

text \<open>
  Claim C5, as amended. \<^verbatim>\<open>is_number\<close> accepts every token of the number pattern
  (digits, then optionally a point and digits) and rejects the five operator symbols
  and the two parentheses; on the tokens that \<^verbatim>\<open>tokenize\<close> produces it is true exactly
  for those of the number pattern. It is \<^verbatim>\<open>float\<close> that decides, so other forms are
  accepted as well.
\<close>

theorem is_number_tokens:
  "(number_pattern token \<longrightarrow> is_number token) \<and>
   (token \<in> {''+'', ''-'', ''*'', ''/'', ''^'', ''('', '')''} \<longrightarrow> \<not> is_number token) \<and>
   (token \<in> set (tokenize expression) \<longrightarrow> (is_number token \<longleftrightarrow> number_pattern token))"
proof (intro conjI impI)
  show "is_number token" if "number_pattern token"
    using that by (rule is_number_pattern)
  show "\<not> is_number token" if "token \<in> {''+'', ''-'', ''*'', ''/'', ''^'', ''('', '')''}"
    using that is_number_symbols by auto
  show "is_number token \<longleftrightarrow> number_pattern token" if "token \<in> set (tokenize expression)"
    using tokenize_tokens [OF that] is_number_pattern [of token] number_pattern_symbols by blast
qed

theorem is_number_tokens_witness:
  "is_number ''12.34'' \<and> \<not> is_number ''+'' \<and> \<not> is_number ''('' \<and>
   (is_number ''10.5'' \<longleftrightarrow> number_pattern ''10.5'') \<and>
   (is_number '')'' \<longleftrightarrow> number_pattern '')'')"
proof -
  note c1 = is_number_tokens [THEN conjunct1, rule_format]
  note c2 = is_number_tokens [THEN conjunct2, THEN conjunct1, rule_format]
  note c3 = is_number_tokens [THEN conjunct2, THEN conjunct2, rule_format]
  have p: "number_pattern ''12.34''" by (simp add: number_pattern_def is_digit_def)
  have t: "''10.5'' \<in> set (tokenize ''(10.5-2.3)'')" "'')'' \<in> set (tokenize ''(10.5-2.3)'')"
    by (simp_all add: is_digit_def)
  have m: "''+'' \<in> {''+'', ''-'', ''*'', ''/'', ''^'', ''('', '')''}"
    "''('' \<in> {''+'', ''-'', ''*'', ''/'', ''^'', ''('', '')''}" by simp_all
  from p have 1: "is_number ''12.34''" by (rule c1)
  from m(1) have 2: "\<not> is_number ''+''" by (rule c2)
  from m(2) have 3: "\<not> is_number ''(''" by (rule c2)
  from t(1) have 4: "is_number ''10.5'' \<longleftrightarrow> number_pattern ''10.5''" by (rule c3)
  from t(2) have 5: "is_number '')'' \<longleftrightarrow> number_pattern '')''" by (rule c3)
  from 1 2 3 4 5 show ?thesis by (intro conjI)
qed

theorem is_number_counterexample:
  "is_number ''.5'' \<and> \<not> number_pattern ''.5'' \<and> is_number ''inf'' \<and> is_number ''nan''"
  using is_number_examples by (simp add: number_pattern_def is_digit_def)

text \<open>
  Claim C10, as amended. Where the scan of the tokenizer starts a token at a run of
  digits that is followed by a point and no digit, it emits the run and the point as
  one token, and that token is a number for \<^verbatim>\<open>is_number\<close>. The scan starts a token
  there when the run is at the start of the string or follows a character that is
  neither a digit nor a point. So \<^verbatim>\<open>2.+3\<close> has the tokens \<^verbatim>\<open>2.\<close>, \<^verbatim>\<open>+\<close>,
  \<^verbatim>\<open>3\<close>, and \<^verbatim>\<open>calculate\<close> returns the sum of \<^verbatim>\<open>float("2.")\<close> and
  \<^verbatim>\<open>float("3")\<close>, which is 5. A run that is the fractional part of a token begun
  earlier is not such a start: there the point is skipped.
\<close>

theorem tokenize_trailing_point:
  assumes "ds \<noteq> []" and "list_all is_digit ds"
    and "rest = [] \<or> \<not> is_digit (hd rest)"
  shows "tokenize (ds @ ''.'' @ rest) = (ds @ ''.'') # tokenize rest \<and>
     ((pre = [] \<or> (\<not> is_digit (last pre) \<and> last pre \<noteq> CHR ''.'')) \<longrightarrow>
        tokenize (pre @ ds @ ''.'' @ rest) = tokenize pre @ (ds @ ''.'') # tokenize rest) \<and>
     is_number (ds @ ''.'') \<and>
     tokenize ''2.+3'' = [''2.'', ''+'', ''3''] \<and>
     calculate A ''2.+3'' =
       (case add A (float_of A ''2.'') (float_of A ''3'') of
          Inl x \<Rightarrow> Inl (Builtin x)
        | Inr v \<Rightarrow> Inr v) \<and>
     calculate exact_arith ''2.+3'' = Inr (Exact 5)"
proof (intro conjI impI)
  have "tokenize (ds @ CHR ''.'' # [] @ rest) = (ds @ CHR ''.'' # []) # tokenize rest"
    using assms(1,2) _ assms(3) by (rule tokenize_decimal) simp
  then show h: "tokenize (ds @ ''.'' @ rest) = (ds @ ''.'') # tokenize rest" by simp
  show "tokenize (pre @ ds @ ''.'' @ rest) = tokenize pre @ (ds @ ''.'') # tokenize rest"
    if "pre = [] \<or> (\<not> is_digit (last pre) \<and> last pre \<noteq> CHR ''.'')"
    using tokenize_boundary [OF that, of "ds @ ''.'' @ rest"] h by simp
  have "number_pattern (ds @ CHR ''.'' # [])"
    using assms(1,2) by (rule number_pattern_decimal) simp
  then show "is_number (ds @ ''.'')" by (rule is_number_pattern)
  show "tokenize ''2.+3'' = [''2.'', ''+'', ''3'']" by code_simp
  have s: "shunting_yard A ''2.+3'' = Inr [''2.'', ''3'', ''+'']" by code_simp
  have "evaluate_rpn A [''2.'', ''3'', ''+''] =
       (case add A (float_of A ''2.'') (float_of A ''3'') of
          Inl x \<Rightarrow> Inl (Builtin x)
        | Inr v \<Rightarrow> Inr v)"
    using is_number_examples(1,2) is_number_symbols(1)
    by (simp add: evaluate_rpn_def rpn_token_def operators_simps split: sum.splits)
  with s show "calculate A ''2.+3'' =
       (case add A (float_of A ''2.'') (float_of A ''3'') of
          Inl x \<Rightarrow> Inl (Builtin x)
        | Inr v \<Rightarrow> Inr v)"
    by (simp add: calculate_def)
  show "calculate exact_arith ''2.+3'' = Inr (Exact 5)" by code_simp
qed

theorem tokenize_trailing_point_witness:
  "tokenize (''27'' @ ''.'' @ '')*3'') = (''27'' @ ''.'') # tokenize '')*3'' \<and>
   tokenize (''(1+'' @ ''27'' @ ''.'' @ '')*3'') =
     tokenize ''(1+'' @ (''27'' @ ''.'') # tokenize '')*3'' \<and>
   is_number (''27'' @ ''.'')"
proof -
  have 1: "''27'' \<noteq> []" by simp
  have 2: "list_all is_digit ''27''" by (simp add: is_digit_def)
  have 3: "'')*3'' = [] \<or> \<not> is_digit (hd '')*3'')" by (simp add: is_digit_def)
  have 4: "''(1+'' = [] \<or> (\<not> is_digit (last ''(1+'') \<and> last ''(1+'' \<noteq> CHR ''.'')"
    by (simp add: is_digit_def)
  note w = tokenize_trailing_point [OF 1 2 3, where A = exact_arith and pre = "''(1+''"]
  from w [THEN conjunct1] w [THEN conjunct2, THEN conjunct1, rule_format, OF 4]
    w [THEN conjunct2, THEN conjunct2, THEN conjunct1]
  show ?thesis by (intro conjI)
qed

theorem tokenize_trailing_point_counterexample:
  "tokenize ''1.2.+3'' = [''1.2'', ''+'', ''3''] \<and>
   calculate exact_arith ''1.2.+3'' = Inr (Exact (21 / 5))"
  by code_simp

subsection \<open>Correctness of the conversion and the evaluation\<close>






















end
